theory Spec2Isabelle
  imports Main "HOL-Library.AList" "HOL-Library.Char_ord" "HOL-Library.List_Lexorder"
begin

section \<open>The remote filesystem\<close>

text \<open>
  The two functions of \<^verbatim>\<open>lib.py\<close> that rotate releases, \<^verbatim>\<open>roll_site_forward\<close> and
  \<^verbatim>\<open>prune_directory\<close>, are shell pipelines sent to the remote host. Their effect is an
  effect on the remote filesystem, so the state of the model is that filesystem: a tree of
  regular files, symbolic links (with the text of their target) and directories (an
  association list from entry names to nodes; the first binding of a name is the entry).

  A path is the list of the directory names leading from the root to an entry. The paths
  handed to the two functions are absolute and symlink-free, and name a directory or
  nothing. Entry names are ordinary words: each line written by \<^verbatim>\<open>ls\<close> reaches
  \<^verbatim>\<open>rm\<close> or \<^verbatim>\<open>ln\<close> as one operand. The host sorts in the C locale (by byte), which
  is the order of \<^typ>\<open>string\<close> here. Every directory is writable and no command fails for
  lack of permission or by an I/O error.
\<close>

datatype node = File | Link string | Dir "(string \<times> node) list"

type_synonym entries = "(string \<times> node) list"

type_synonym path = "string list"

fun lookup :: "node \<Rightarrow> path \<Rightarrow> node option" where
  "lookup n [] = Some n"
| "lookup (Dir es) (c # cs) =
     (case map_of es c of None \<Rightarrow> None | Some m \<Rightarrow> lookup m cs)"
| "lookup File (c # cs) = None"
| "lookup (Link t) (c # cs) = None"

text \<open>\<open>modify f p t\<close> rewrites the entries of the directory at \<open>p\<close> with \<open>f\<close>; a path that
  leads to no directory leaves the tree as it is.\<close>

fun modify :: "(entries \<Rightarrow> entries) \<Rightarrow> path \<Rightarrow> node \<Rightarrow> node" where
  "modify f [] (Dir es) = Dir (f es)"
| "modify f (c # cs) (Dir es) =
     (case map_of es c of
        None \<Rightarrow> Dir es
      | Some m \<Rightarrow> Dir (AList.update c (modify f cs m) es))"
| "modify f p File = File"
| "modify f p (Link t) = Link t"

text \<open>The remote host as a command sees it: the tree, and the directory in which a command
  without a \<^verbatim>\<open>cd\<close> prefix runs (the login directory of the deploying user).\<close>

record remote =
  tree :: node
  login_dir :: path

section \<open>The commands of the pipelines\<close>

text \<open>\<^verbatim>\<open>ls -1 DIR\<close>: the names of the entries of the directory, one per line, sorted, without
  the names that begin with a dot. \<^verbatim>\<open>ls -1r\<close> prints the same lines in reverse order.\<close>

definition hidden :: "string \<Rightarrow> bool" where
  "hidden name = (case name of [] \<Rightarrow> False | c # _ \<Rightarrow> c = CHR ''.'')"

definition ls_1 :: "node \<Rightarrow> path \<Rightarrow> string list" where
  "ls_1 t p =
     (case lookup t p of
        Some (Dir es) \<Rightarrow> sort (remdups (filter (\<lambda>n. \<not> hidden n) (map fst es)))
      | _ \<Rightarrow> [])"

definition ls_1r :: "node \<Rightarrow> path \<Rightarrow> string list" where
  "ls_1r t p = rev (ls_1 t p)"

text \<open>\<^verbatim>\<open>grep PATTERN\<close> keeps the lines in which the pattern occurs. The patterns of this
  program are plain text (\<^verbatim>\<open>2\<close> in \<^verbatim>\<open>roll_site_forward\<close>, and what \<^verbatim>\<open>deploy\<close> passes to
  \<^verbatim>\<open>prune_directory\<close>), so an occurrence is a substring. With an empty pattern the command
  line is \<^verbatim>\<open>grep\<close> without operand, which prints its usage and no line.\<close>

fun starts_with :: "string \<Rightarrow> string \<Rightarrow> bool" where
  "starts_with [] l = True"
| "starts_with (p # ps) [] = False"
| "starts_with (p # ps) (c # cs) = (p = c \<and> starts_with ps cs)"

fun occurs_in :: "string \<Rightarrow> string \<Rightarrow> bool" where
  "occurs_in pat [] = starts_with pat []"
| "occurs_in pat (c # cs) = (starts_with pat (c # cs) \<or> occurs_in pat cs)"

definition grep_matches :: "string \<Rightarrow> string \<Rightarrow> bool" where
  "grep_matches pattern l = (pattern \<noteq> [] \<and> occurs_in pattern l)"

definition grep :: "string \<Rightarrow> string list \<Rightarrow> string list" where
  "grep pattern ls = filter (grep_matches pattern) ls"

text \<open>\<^verbatim>\<open>tail -n 1\<close> prints the last line, if there is one. \<^verbatim>\<open>tail -n +K\<close> prints from line
  \<open>K\<close> on, counting from 1: it skips \<open>K - 1\<close> lines; \<^verbatim>\<open>+0\<close> prints every line, and a
  negative \<open>K\<close> (\<^verbatim>\<open>%d\<close> then formats \<^verbatim>\<open>+-3\<close>) is refused and nothing is printed.\<close>

definition tail_n_1 :: "string list \<Rightarrow> string list" where
  "tail_n_1 ls = (if ls = [] then [] else [last ls])"

definition tail_n_plus :: "int \<Rightarrow> string list \<Rightarrow> string list" where
  "tail_n_plus k ls = (if k < 0 then [] else drop (nat k - 1) ls)"

text \<open>\<^verbatim>\<open>xargs rm -rf --preserve-root\<close> run in directory \<open>wd\<close>: every line is an operand, a name
  relative to \<open>wd\<close>, and the entry of that name goes with all below it. A name with no
  entry is passed over (\<^verbatim>\<open>-f\<close>), and so is an empty list of operands.\<close>

definition rm_rf :: "path \<Rightarrow> string list \<Rightarrow> node \<Rightarrow> node" where
  "rm_rf wd operands t = fold (\<lambda>name. modify (AList.delete name) wd) operands t"









section \<open>The two functions of lib.py\<close>

text \<open>What \<^verbatim>\<open>env.run\<close> returns: the standard output of the command, its lines joined by
  newlines and without the final one.\<close>

definition run_output :: "string list \<Rightarrow> string" where
  "run_output ls =
     (case ls of [] \<Rightarrow> [] | l # rest \<Rightarrow> fold (\<lambda>x acc. acc @ CHR 0x0A # x) rest l)"


text \<open>
  \<^verbatim>\<open>newest_deployment = env.run('ls -1 %s | grep 2 | tail -n 1' % deployment_dir)\<close>
  The status of a pipeline is the status of \<^verbatim>\<open>tail\<close>, which is 0: this command never
  aborts the run.
\<close>

definition newest_deployment :: "path \<Rightarrow> remote \<Rightarrow> string" where
  "newest_deployment deployment_dir r =
     run_output (tail_n_1 (grep ''2'' (ls_1 (tree r) deployment_dir)))"


text \<open>
  \<^verbatim>\<open>with settings(warn_only=True):
      env.run('ls -1r %s | grep %s | tail -n +%d | xargs rm -rf --preserve-root'
              % (directory, pattern, max_entries))\<close>
  There is no \<^verbatim>\<open>cd\<close> around the command: \<^verbatim>\<open>ls\<close> lists \<open>directory\<close>, and \<^verbatim>\<open>rm\<close>
  resolves the names it is given in the login directory. The function returns nothing
  and never aborts.
\<close>

definition prune_directory :: "path \<Rightarrow> string \<Rightarrow> int \<Rightarrow> remote \<Rightarrow> remote" where
  "prune_directory directory pattern max_entries r =
     r\<lparr>tree := rm_rf (login_dir r)
                 (tail_n_plus max_entries (grep pattern (ls_1r (tree r) directory)))
                 (tree r)\<rparr>"



section \<open>Looking up and rewriting along a path\<close>




lemma modify_no_dir:
  "\<forall>es. lookup t p \<noteq> Some (Dir es) \<Longrightarrow> modify f p t = t"
proof (induction p arbitrary: t)
  case Nil
  then show ?case by (cases t) simp_all
next
  case (Cons c cs)
  then show ?case
    by (cases t) (auto simp: update_triv split: option.splits)
qed



lemma lookup_modify_frame:
  assumes "\<And>es. map_of (f es) n = map_of es n"
  shows "lookup (modify f p t) (p @ n # q) = lookup t (p @ n # q)"
proof (induction p arbitrary: t)
  case Nil
  show ?case by (cases t) (simp_all add: assms)
next
  case (Cons c cs)
  show ?case
    by (cases t) (simp_all add: update_conv' Cons.IH split: option.splits)
qed



section \<open>The listing and the selection\<close>

lemma grep_2_iff: "grep_matches ''2'' l \<longleftrightarrow> CHR ''2'' \<in> set l"
  by (induction l) (auto simp: grep_matches_def)

lemma set_ls_1:
  "lookup t p = Some (Dir es) \<Longrightarrow> set (ls_1 t p) = {n \<in> fst ` set es. \<not> hidden n}"
  by (auto simp: ls_1_def)

lemma newest_deployment_none:
  "grep ''2'' (ls_1 (tree r) d) = [] \<Longrightarrow> newest_deployment d r = []"
  by (simp add: newest_deployment_def tail_n_1_def run_output_def)

lemma newest_deployment_last:
  "grep ''2'' (ls_1 (tree r) d) \<noteq> [] \<Longrightarrow>
   newest_deployment d r = last (grep ''2'' (ls_1 (tree r) d))"
  by (simp add: newest_deployment_def tail_n_1_def run_output_def)

lemma sorted_last_Max:
  fixes xs :: "'a::linorder list"
  assumes "sorted xs" and "xs \<noteq> []"
  shows "last xs = Max (set xs)"
proof -
  have "xs = butlast xs @ [last xs]"
    using assms(2) by simp
  then have "sorted (butlast xs @ [last xs])"
    using assms(1) by simp
  then have "\<forall>y\<in>set (butlast xs). y \<le> last xs"
    by (simp add: sorted_append)
  moreover have "set xs = insert (last xs) (set (butlast xs))"
    using \<open>xs = butlast xs @ [last xs]\<close> by (metis Un_insert_right append_Nil2 list.simps(15) set_append)
  ultimately have "\<forall>y\<in>set xs. y \<le> last xs"
    by auto
  then show ?thesis
    using assms(2) by (intro Max_eqI [symmetric]) auto
qed

lemma sorted_ls_1: "sorted (ls_1 t p)"
  by (simp add: ls_1_def split: option.splits node.splits)

lemma set_grep_2: "set (grep ''2'' ls) = {n \<in> set ls. CHR ''2'' \<in> set n}"
  by (auto simp: grep_def grep_2_iff)

lemma newest_deployment_Max:
  assumes "{n \<in> set (ls_1 (tree r) d). CHR ''2'' \<in> set n} \<noteq> {}"
  shows "newest_deployment d r = Max {n \<in> set (ls_1 (tree r) d). CHR ''2'' \<in> set n}"
proof -
  have ne: "grep ''2'' (ls_1 (tree r) d) \<noteq> []"
    using assms by (simp flip: set_grep_2)
  have "sorted (grep ''2'' (ls_1 (tree r) d))"
    by (simp add: grep_def sorted_ls_1 sorted_wrt_filter)
  then have "last (grep ''2'' (ls_1 (tree r) d)) = Max (set (grep ''2'' (ls_1 (tree r) d)))"
    using ne by (rule sorted_last_Max)
  then show ?thesis
    using ne by (simp add: newest_deployment_last set_grep_2)
qed

lemma newest_deployment_cases:
  "newest_deployment d r = [] \<and> {n \<in> set (ls_1 (tree r) d). CHR ''2'' \<in> set n} = {}
   \<or> newest_deployment d r \<in> set (ls_1 (tree r) d) \<and> CHR ''2'' \<in> set (newest_deployment d r)"
proof (cases "{n \<in> set (ls_1 (tree r) d). CHR ''2'' \<in> set n} = {}")
  case True
  then have "grep ''2'' (ls_1 (tree r) d) = []"
    by (simp flip: set_grep_2)
  then show ?thesis
    using True by (simp add: newest_deployment_none)
next
  case False
  have "finite {n \<in> set (ls_1 (tree r) d). CHR ''2'' \<in> set n}"
    by simp
  then have "Max {n \<in> set (ls_1 (tree r) d). CHR ''2'' \<in> set n}
               \<in> {n \<in> set (ls_1 (tree r) d). CHR ''2'' \<in> set n}"
    using False by (rule Max_in)
  then show ?thesis
    by (simp add: newest_deployment_Max [OF False])
qed






section \<open>Pruning\<close>




text \<open>
  Claim C1, at the input of its scenario: three release directories and
  \<open>max_entries = 2\<close>. \<^verbatim>\<open>tail -n +2\<close> skips one line, not two, so the operands of \<^verbatim>\<open>rm\<close> are
  the two older releases. Run in the directory itself, the command leaves only
  \<^verbatim>\<open>20230103_000000\<close>; run from another login directory, where those names do not exist,
  it removes nothing. In neither case is \<^verbatim>\<open>20230101_000000\<close> the one entry removed.
\<close>

theorem prune_directory_three_releases:
  "prune_directory [''srv''] ''2023'' 2
     \<lparr>tree = Dir [(''srv'', Dir [(''20230101_000000'', Dir c1), (''20230102_000000'', Dir c2),
                                 (''20230103_000000'', Dir c3)]),
                  (''home'', Dir [])],
      login_dir = [''srv'']\<rparr>
   = \<lparr>tree = Dir [(''srv'', Dir [(''20230103_000000'', Dir c3)]), (''home'', Dir [])],
      login_dir = [''srv'']\<rparr>
   \<and> prune_directory [''srv''] ''2023'' 2
     \<lparr>tree = Dir [(''srv'', Dir [(''20230101_000000'', Dir c1), (''20230102_000000'', Dir c2),
                                 (''20230103_000000'', Dir c3)]),
                  (''home'', Dir [])],
      login_dir = [''home'']\<rparr>
   = \<lparr>tree = Dir [(''srv'', Dir [(''20230101_000000'', Dir c1), (''20230102_000000'', Dir c2),
                                 (''20230103_000000'', Dir c3)]),
                  (''home'', Dir [])],
      login_dir = [''home'']\<rparr>"
  by (simp add: prune_directory_def rm_rf_def tail_n_plus_def grep_def grep_matches_def
      ls_1r_def ls_1_def hidden_def)

text \<open>
  What \<^verbatim>\<open>rm\<close> is given are lines that \<^verbatim>\<open>grep\<close> let through, so in the directory
  where it runs, the login directory, a name that does not match the pattern leads to the
  same node before and after. For the pruned directory this says something only when it
  is the login directory.
\<close>

lemma rm_rf_keeps_other_names:
  "n \<notin> set operands \<Longrightarrow> lookup (rm_rf wd operands t) (wd @ [n]) = lookup t (wd @ [n])"
proof (induction operands arbitrary: t)
  case Nil
  show ?case by (simp add: rm_rf_def)
next
  case (Cons k ks)
  have "lookup (modify (AList.delete k) wd t) (wd @ n # []) = lookup t (wd @ n # [])"
    using Cons.prems by (intro lookup_modify_frame) simp
  moreover have "rm_rf wd (k # ks) t = rm_rf wd ks (modify (AList.delete k) wd t)"
    by (simp add: rm_rf_def)
  ultimately show ?case
    using Cons by simp
qed

lemma prune_directory_keeps_unmatched_names:
  assumes "\<not> grep_matches pattern n"
  shows "lookup (tree (prune_directory directory pattern max_entries r)) (login_dir r @ [n])
       = lookup (tree r) (login_dir r @ [n])"
proof -
  have "set (tail_n_plus max_entries (grep pattern (ls_1r (tree r) directory)))
          \<subseteq> set (grep pattern (ls_1r (tree r) directory))"
    by (auto simp: tail_n_plus_def dest: in_set_dropD)
  then have "n \<notin> set (tail_n_plus max_entries (grep pattern (ls_1r (tree r) directory)))"
    using assms by (auto simp: grep_def)
  then show ?thesis
    by (simp add: prune_directory_def rm_rf_keeps_other_names)
qed

text \<open>
  Claim C4, at an input where it fails. The login directory is \<^verbatim>\<open>/home\<close>, the directory
  to prune is \<^verbatim>\<open>/home/site2\<close>, and it holds a directory \<^verbatim>\<open>site2\<close> and the link
  \<^verbatim>\<open>live\<close>, whose name does not match the pattern \<^verbatim>\<open>2\<close>. The one operand of \<^verbatim>\<open>rm\<close>
  is \<^verbatim>\<open>site2\<close>; resolved in \<^verbatim>\<open>/home\<close>, for want of a \<^verbatim>\<open>cd\<close>, it names the pruned
  directory itself, which goes with the \<^verbatim>\<open>live\<close> in it.
\<close>

theorem prune_directory_removes_unmatched:
  "\<not> grep_matches ''2'' ''live''
   \<and> lookup (Dir [(''home'', Dir [(''site2'', Dir [(''site2'', Dir c), (''live'', Link ''site2'')])])])
        [''home'', ''site2'', ''live''] = Some (Link ''site2'')
   \<and> prune_directory [''home'', ''site2''] ''2'' 1
        \<lparr>tree = Dir [(''home'', Dir [(''site2'', Dir [(''site2'', Dir c), (''live'', Link ''site2'')])])],
         login_dir = [''home'']\<rparr>
     = \<lparr>tree = Dir [(''home'', Dir [])], login_dir = [''home'']\<rparr>"
  by (simp add: prune_directory_def rm_rf_def tail_n_plus_def grep_def grep_matches_def
      ls_1r_def ls_1_def hidden_def)

section \<open>Rolling the site forward\<close>









text \<open>
  Claim C9, as amended. Among the entries that \<^verbatim>\<open>ls\<close> lists (those whose name does not
  begin with a dot), the candidates are the names that contain a \<^verbatim>\<open>2\<close>, whatever their
  format: the greatest candidate is selected, no candidate gives the empty selection, and
  a name without a \<^verbatim>\<open>2\<close>, such as \<^verbatim>\<open>live\<close>, is never selected.
\<close>

theorem newest_deployment_filter:
  assumes dir: "lookup (tree r) d = Some (Dir es)"
  shows "({n \<in> fst ` set es. \<not> hidden n \<and> CHR ''2'' \<in> set n} \<noteq> {} \<longrightarrow>
            newest_deployment d r = Max {n \<in> fst ` set es. \<not> hidden n \<and> CHR ''2'' \<in> set n})
       \<and> ({n \<in> fst ` set es. \<not> hidden n \<and> CHR ''2'' \<in> set n} = {} \<longrightarrow>
            newest_deployment d r = [])
       \<and> (newest_deployment d r \<noteq> [] \<longrightarrow> CHR ''2'' \<in> set (newest_deployment d r))
       \<and> newest_deployment d r \<noteq> ''live''"
proof -
  have same: "{n \<in> set (ls_1 (tree r) d). CHR ''2'' \<in> set n}
            = {n \<in> fst ` set es. \<not> hidden n \<and> CHR ''2'' \<in> set n}"
    by (auto simp: set_ls_1 [OF dir])
  have "newest_deployment d r = Max {n \<in> fst ` set es. \<not> hidden n \<and> CHR ''2'' \<in> set n}"
    if "{n \<in> fst ` set es. \<not> hidden n \<and> CHR ''2'' \<in> set n} \<noteq> {}"
    using that newest_deployment_Max [of r d] same by simp
  moreover have "newest_deployment d r = []"
    if "{n \<in> fst ` set es. \<not> hidden n \<and> CHR ''2'' \<in> set n} = {}"
  proof -
    have "{n \<in> set (ls_1 (tree r) d). CHR ''2'' \<in> set n} = {}"
      using that same by simp
    then show ?thesis
      using newest_deployment_cases [of d r] by blast
  qed
  moreover have "newest_deployment d r \<noteq> [] \<longrightarrow> CHR ''2'' \<in> set (newest_deployment d r)"
    using newest_deployment_cases [of d r] by auto
  moreover have "newest_deployment d r \<noteq> ''live''"
    using newest_deployment_cases [of d r] by auto
  ultimately show ?thesis
    by blast
qed

theorem newest_deployment_filter_witness:
  "newest_deployment [''srv'']
      \<lparr>tree = Dir [(''srv'', Dir [(''v2'', Dir []), (''20230101_000000'', Dir []),
                                  (''README'', File), (''live'', Link ''v2'')])],
       login_dir = []\<rparr> = ''v2''
   \<and> newest_deployment [''srv'']
      \<lparr>tree = Dir [(''srv'', Dir [(''README'', File), (''live'', Link ''gone'')])],
       login_dir = []\<rparr> = []"
proof -
  let ?a = "\<lparr>tree = Dir [(''srv'', Dir [(''v2'', Dir []), (''20230101_000000'', Dir []),
                                  (''README'', File), (''live'', Link ''v2'')])],
       login_dir = []\<rparr>"
  let ?b = "\<lparr>tree = Dir [(''srv'', Dir [(''README'', File), (''live'', Link ''gone'')])],
       login_dir = []\<rparr>"
  have dir_a: "lookup (tree ?a) [''srv'']
      = Some (Dir [(''v2'', Dir []), (''20230101_000000'', Dir []), (''README'', File), (''live'', Link ''v2'')])"
    by simp
  have dir_b: "lookup (tree ?b) [''srv''] = Some (Dir [(''README'', File), (''live'', Link ''gone'')])"
    by simp
  have set_a: "{n \<in> fst ` set [(''v2'', Dir []), (''20230101_000000'', Dir []), (''README'', File),
                                 (''live'', Link ''v2'')]. \<not> hidden n \<and> CHR ''2'' \<in> set n}
      = {''20230101_000000'', ''v2''}"
    by (auto simp: hidden_def)
  have set_b: "{n \<in> fst ` set [(''README'', File), (''live'', Link ''gone'')].
                  \<not> hidden n \<and> CHR ''2'' \<in> set n} = {}"
    by (auto simp: hidden_def)
  show ?thesis
    using newest_deployment_filter [OF dir_a] newest_deployment_filter [OF dir_b]
    unfolding set_a set_b by simp
qed

text \<open>
  An entry whose name begins with a dot is no candidate, though it contains a \<^verbatim>\<open>2\<close> and
  is the only entry.
\<close>

theorem newest_deployment_hidden_entry:
  "CHR ''2'' \<in> set ''.2''
   \<and> newest_deployment [''srv''] \<lparr>tree = Dir [(''srv'', Dir [(''.2'', Dir [])])], login_dir = []\<rparr> = []"
  by (simp add: newest_deployment_def run_output_def tail_n_1_def grep_def ls_1_def hidden_def)












end
